theory Spec2Isabelle
  imports Complex_Main
begin

section \<open>Python strings\<close>

text \<open>
  A Python \<open>str\<close> is a sequence of code points. The model is \<^typ>\<open>string\<close>, one
  \<^typ>\<open>char\<close> per code point, which covers the code points 0 to 255. The whitespace
  characters of \<open>str.strip()\<close> and the line boundaries of \<open>str.splitlines()\<close> are
  the ones Python has in that range.
\<close>

definition LF :: char where
  "LF = CHR 0x0A"

definition CR :: char where
  "CR = CHR 0x0D"

definition whitespace :: "char list" where
  "whitespace = [CHR 0x09, CHR 0x0A, CHR 0x0B, CHR 0x0C, CHR 0x0D, CHR 0x1C, CHR 0x1D,
                 CHR 0x1E, CHR 0x1F, CHR 0x20, CHR 0x85, CHR 0xA0]"

definition line_boundaries :: "char list" where
  "line_boundaries = [CHR 0x0A, CHR 0x0D, CHR 0x0B, CHR 0x0C, CHR 0x1C, CHR 0x1D,
                      CHR 0x1E, CHR 0x85]"


definition is_linebreak :: "char \<Rightarrow> bool" where
  "is_linebreak c = (c \<in> set line_boundaries)"

text \<open>\<open>s.strip(chars)\<close>: drop the characters of \<open>chars\<close> from both ends.\<close>

definition strip_chars :: "char list \<Rightarrow> string \<Rightarrow> string" where
  "strip_chars chars s =
     rev (dropWhile (\<lambda>c. c \<in> set chars) (rev (dropWhile (\<lambda>c. c \<in> set chars) s)))"

text \<open>\<open>s.strip()\<close>: drop whitespace from both ends.\<close>

definition strip :: "string \<Rightarrow> string" where
  "strip s = strip_chars whitespace s"

text \<open>\<open>s.split(sep)\<close> for a separator of one character; the result is never empty.\<close>

fun split_on :: "char \<Rightarrow> string \<Rightarrow> string list" where
  "split_on sep [] = [[]]"
| "split_on sep (c # cs) =
     (if c = sep then [] # split_on sep cs
      else (case split_on sep cs of [] \<Rightarrow> [[c]] | w # ws \<Rightarrow> (c # w) # ws))"

text \<open>
  \<open>s.splitlines()\<close>: the pieces between line boundaries, \<open>\r\n\<close> being one boundary;
  no piece for the empty rest after the last boundary, and no piece at all for \<open>""\<close>.
  The first argument is the piece being read, reversed.
\<close>

fun splitlines_from :: "string \<Rightarrow> string \<Rightarrow> string list" where
  "splitlines_from cur [] = (if cur = [] then [] else [rev cur])"
| "splitlines_from cur [c] = (if is_linebreak c then [rev cur] else [rev (c # cur)])"
| "splitlines_from cur (c # d # cs) =
     (if c = CR \<and> d = LF then rev cur # splitlines_from [] cs
      else if is_linebreak c then rev cur # splitlines_from [] (d # cs)
      else splitlines_from (c # cur) (d # cs))"

definition splitlines :: "string \<Rightarrow> string list" where
  "splitlines s = splitlines_from [] s"

text \<open>\<open>sep.join(xs)\<close>.\<close>

fun join :: "string \<Rightarrow> string list \<Rightarrow> string" where
  "join sep [] = []"
| "join sep [x] = x"
| "join sep (x # y # ys) = x @ sep @ join sep (y # ys)"

definition startswith :: "string \<Rightarrow> string \<Rightarrow> bool" where
  "startswith s p = (take (length p) s = p)"

definition endswith :: "string \<Rightarrow> string \<Rightarrow> bool" where
  "endswith s p = (length p \<le> length s \<and> drop (length s - length p) s = p)"

section \<open>The Markdown table parser\<close>

text \<open>
  \<open>parse_markdown_table\<close> (phase2\_json\_to\_docx.py, lines 8 to 27). The loop
  variables \<open>table_data\<close>, \<open>header_parsed\<close> and \<open>num_cols\<close> are the
  fields of the loop state.
\<close>

record parser_state =
  table_data :: "string list list"
  header_parsed :: bool
  num_cols :: nat

definition clean_cell :: "string \<Rightarrow> string" where
  "clean_cell cell_text = strip cell_text"

definition table_lines :: "string \<Rightarrow> string list" where
  "table_lines markdown_table_content =
     map strip (filter (\<lambda>line. strip line \<noteq> []) (split_on LF (strip markdown_table_content)))"

definition line_cells :: "string \<Rightarrow> string list" where
  "line_cells line = map clean_cell (split_on CHR ''|'' (strip_chars ''|'' line))"

definition append_row :: "string list \<Rightarrow> parser_state \<Rightarrow> parser_state" where
  "append_row cells st = st\<lparr>table_data := table_data st @ [cells]\<rparr>"

text \<open>One iteration of the loop of line 13, on the pair that \<open>enumerate\<close> gives.\<close>

definition parse_line :: "parser_state \<Rightarrow> nat \<times> string \<Rightarrow> parser_state" where
  "parse_line st il =
     (let i = fst il; line = snd il in
      if \<not> startswith line ''|'' \<or> \<not> endswith line ''|'' then
        (if i = 1 \<and> list_all (\<lambda>c. c \<in> set ''-|: '') line then st else st)
      else
        (let cells = line_cells line in
         if \<not> header_parsed st then
           (append_row cells st)\<lparr>num_cols := length cells, header_parsed := True\<rparr>
         else if length cells = num_cols st then append_row cells st
         else if length cells > num_cols st \<and> num_cols st > 0 then
           append_row (take (num_cols st) cells) st
         else if length cells < num_cols st \<and> num_cols st > 0 then
           append_row (cells @ replicate (num_cols st - length cells) []) st
         else if num_cols st = 0 \<and> cells \<noteq> [] then
           (append_row cells st)\<lparr>num_cols := length cells\<rparr>
         else st))"

definition parse_markdown_table :: "string \<Rightarrow> string list list" where
  "parse_markdown_table markdown_table_content =
     (let lines = table_lines markdown_table_content in
      if lines = [] then []
      else table_data
             (foldl parse_line
                \<lparr>table_data = [], header_parsed = False, num_cols = 0\<rparr>
                (enumerate 0 lines)))"

section \<open>Python values\<close>

text \<open>
  What \<open>json.loads\<close> returns: \<open>None\<close>, a \<open>bool\<close>, an \<open>int\<close>, a \<open>float\<close>,
  a \<open>str\<close>, a \<open>list\<close> or a \<open>dict\<close> with \<open>str\<close> keys. A dict is an association
  list read with \<^const>\<open>map_of\<close>.
\<close>

datatype pyfloat = Float_Finite real | Float_Inf | Float_NegInf | Float_NaN

datatype pyval =
    PNone
  | PBool bool
  | PInt int
  | PFloat pyfloat
  | PStr string
  | PList "pyval list"
  | PDict "(string \<times> pyval) list"

datatype py_exception = TypeError | AttributeError | KeyError | IndexError | ValueError

text \<open>
  The library functions the program calls and whose code is not part of it:
  \<open>json.loads\<close> (\<open>None\<close> when it raises \<open>JSONDecodeError\<close>) and \<open>str()\<close> of a
  value that is not a \<open>str\<close>, which an f-string applies.
\<close>

record pylib =
  json_loads :: "string \<Rightarrow> pyval option"
  py_str :: "pyval \<Rightarrow> string"

text \<open>The truth value of a Python value, as \<open>if content:\<close> takes it.\<close>

fun truthy :: "pyval \<Rightarrow> bool" where
  "truthy PNone = False"
| "truthy (PBool b) = b"
| "truthy (PInt n) = (n \<noteq> 0)"
| "truthy (PFloat f) = (f \<noteq> Float_Finite 0)"
| "truthy (PStr s) = (s \<noteq> [])"
| "truthy (PList xs) = (xs \<noteq> [])"
| "truthy (PDict kvs) = (kvs \<noteq> [])"

text \<open>\<open>{v}\<close> in an f-string.\<close>

fun format_value :: "pylib \<Rightarrow> pyval \<Rightarrow> string" where
  "format_value L (PStr s) = s"
| "format_value L v = py_str L v"

fun is_substring :: "string \<Rightarrow> string \<Rightarrow> bool" where
  "is_substring p [] = (p = [])"
| "is_substring p (c # cs) = (startswith (c # cs) p \<or> is_substring p cs)"

text \<open>\<open>key in data\<close> for a \<open>str\<close> key: a key of a dict, an element of a list, a
  substring of a str; the other values are not iterable.\<close>

fun py_contains :: "pyval \<Rightarrow> string \<Rightarrow> py_exception + bool" where
  "py_contains (PDict kvs) key = Inr (map_of kvs key \<noteq> None)"
| "py_contains (PList xs) key = Inr (PStr key \<in> set xs)"
| "py_contains (PStr s) key = Inr (is_substring key s)"
| "py_contains v key = Inl TypeError"

text \<open>\<open>data[key]\<close> for a \<open>str\<close> key.\<close>

fun py_subscript :: "pyval \<Rightarrow> string \<Rightarrow> py_exception + pyval" where
  "py_subscript (PDict kvs) key =
     (case map_of kvs key of None \<Rightarrow> Inl KeyError | Some v \<Rightarrow> Inr v)"
| "py_subscript v key = Inl TypeError"

text \<open>\<open>data.get(key, default)\<close>: only a dict has the method.\<close>

fun py_get :: "pyval \<Rightarrow> string \<Rightarrow> pyval \<Rightarrow> py_exception + pyval" where
  "py_get (PDict kvs) key dflt =
     Inr (case map_of kvs key of None \<Rightarrow> dflt | Some v \<Rightarrow> v)"
| "py_get v key dflt = Inl AttributeError"

fun isinstance_list :: "pyval \<Rightarrow> bool" where
  "isinstance_list (PList xs) = True"
| "isinstance_list v = False"

text \<open>The values a \<open>for\<close> loop over \<open>v\<close> visits.\<close>

fun py_iter :: "pyval \<Rightarrow> py_exception + pyval list" where
  "py_iter (PList xs) = Inr xs"
| "py_iter (PStr s) = Inr (map (\<lambda>c. PStr [c]) s)"
| "py_iter (PDict kvs) = Inr (map (\<lambda>kv. PStr (fst kv)) kvs)"
| "py_iter v = Inl TypeError"

section \<open>The output document\<close>

text \<open>
  The \<open>python-docx\<close> document as the sequence of blocks the program adds to it.
  A paragraph keeps the two arguments of \<open>doc.add_paragraph\<close>, the text as the Python
  value that was passed. A table has a style, a column count and rows of cells.
\<close>

record cell =
  cell_text :: string
  cell_bold :: bool

record table =
  table_style :: string
  table_cols :: nat
  table_rows :: "cell list list"

datatype block = Paragraph pyval string | Table table

type_synonym document = "block list"

text \<open>
  The characters that the XML tree under the document refuses in a text: the control
  characters other than tab, line feed and carriage return. Writing a text with one of
  them raises \<open>ValueError\<close>.
\<close>

definition TAB :: char where
  "TAB = CHR 0x09"

definition xml_forbidden :: "char list" where
  "xml_forbidden = [CHR 0x00, CHR 0x01, CHR 0x02, CHR 0x03, CHR 0x04, CHR 0x05, CHR 0x06,
                    CHR 0x07, CHR 0x08, CHR 0x0B, CHR 0x0C, CHR 0x0E, CHR 0x0F, CHR 0x10,
                    CHR 0x11, CHR 0x12, CHR 0x13, CHR 0x14, CHR 0x15, CHR 0x16, CHR 0x17,
                    CHR 0x18, CHR 0x19, CHR 0x1A, CHR 0x1B, CHR 0x1C, CHR 0x1D, CHR 0x1E,
                    CHR 0x1F]"

definition xml_compatible :: "string \<Rightarrow> bool" where
  "xml_compatible s = list_all (\<lambda>c. c \<notin> set xml_forbidden) s"

text \<open>
  The text setter of a run, as the library has it: the items of the text are visited as a
  \<open>for\<close> loop visits them (the characters of a \<open>str\<close>); the item \<open>"\t"\<close> and an
  item that is \<open>in "\r\n"\<close> end the piece being read, which is then written to the XML
  tree; the other items are added to the piece, and the last piece is written at the end.
  An item that is not a \<open>str\<close> raises \<open>TypeError\<close> at the \<open>in\<close> test. The result is
  the text written so far and the exception, if any.
\<close>

fun add_text :: "string \<Rightarrow> string \<Rightarrow> pyval list \<Rightarrow> string \<times> py_exception option" where
  "add_text written bfr [] =
     (if xml_compatible bfr then (written @ bfr, None) else (written, Some ValueError))"
| "add_text written bfr (PStr ch # rest) =
     (if ch = [TAB] \<or> is_substring ch [CR, LF] then
        (if xml_compatible bfr then add_text (written @ bfr @ ch) [] rest
         else (written, Some ValueError))
      else add_text written (bfr @ ch) rest)"
| "add_text written bfr (v # rest) = (written, Some TypeError)"

definition run_text :: "pyval \<Rightarrow> string \<times> py_exception option" where
  "run_text txt =
     (case py_iter txt of
        Inl e \<Rightarrow> ([], Some e)
      | Inr items \<Rightarrow> add_text [] [] items)"

text \<open>
  \<open>doc.add_paragraph(text, style)\<close>: the paragraph gets a run with the text when the
  text is true. An exception of the run's text setter leaves the function, so the document
  is only given when there is none.
\<close>

definition add_paragraph :: "document \<Rightarrow> pyval \<Rightarrow> string \<Rightarrow> py_exception + document" where
  "add_paragraph doc txt style =
     (if truthy txt then
        (case run_text txt of
           (written, Some e) \<Rightarrow> Inl e
         | (written, None) \<Rightarrow> Inr (doc @ [Paragraph txt style]))
      else Inr (doc @ [Paragraph txt style]))"

definition add_table :: "nat \<Rightarrow> table" where
  "add_table cols = \<lparr>table_style = [], table_cols = cols, table_rows = []\<rparr>"

text \<open>\<open>table_docx.add_row().cells\<close>: one empty cell for each column.\<close>

definition new_row_cells :: "table \<Rightarrow> cell list" where
  "new_row_cells t = replicate (table_cols t) \<lparr>cell_text = [], cell_bold = False\<rparr>"

text \<open>
  \<open>cell.text = t\<close>: the content of the cell is replaced by one paragraph with one run,
  whose text is set. When the setter raises, the cell keeps what was written.
\<close>

definition set_cell_text :: "string \<Rightarrow> cell \<times> py_exception option" where
  "set_cell_text t =
     (case run_text (PStr t) of
        (written, None) \<Rightarrow> (\<lparr>cell_text = t, cell_bold = False\<rparr>, None)
      | (written, Some e) \<Rightarrow> (\<lparr>cell_text = written, cell_bold = False\<rparr>, Some e))"

text \<open>
  Modelled from the spec: the cell objects of \<open>python-docx\<close> are not in the source, so
  whether a cell has a paragraph with a run once its text is set (the test of line 75) is
  not decided there. The spec says that the first row is rendered as a bolded header row:
  the test holds for every header text.
\<close>

definition has_first_run :: "string \<Rightarrow> bool" where
  "has_first_run header_text = True"

text \<open>
  The loops of lines 72 to 76 and 81 to 82 over \<open>enumerate\<close> of a row. The result is
  the row as it is when the loop ends, and the exception that ended it, if any:
  an index outside the row raises \<open>IndexError\<close>, and the text setter of a cell may
  raise.
\<close>

fun fill_header :: "nat \<Rightarrow> (nat \<times> string) list \<Rightarrow> cell list \<Rightarrow> cell list \<times> py_exception option" where
  "fill_header n [] hdr_cells = (hdr_cells, None)"
| "fill_header n ((i, header_text) # rest) hdr_cells =
     (if i < n then
        (if i < length hdr_cells then
           (case set_cell_text header_text of
              (c, Some e) \<Rightarrow> (hdr_cells[i := c], Some e)
            | (c, None) \<Rightarrow>
                fill_header n rest
                  (hdr_cells[i := (if has_first_run header_text then c\<lparr>cell_bold := True\<rparr>
                                   else c)]))
         else (hdr_cells, Some IndexError))
      else fill_header n rest hdr_cells)"

fun fill_row :: "(nat \<times> string) list \<Rightarrow> cell list \<Rightarrow> cell list \<times> py_exception option" where
  "fill_row [] row_cells = (row_cells, None)"
| "fill_row ((i, txt) # rest) row_cells =
     (if i < length row_cells then
        (case set_cell_text txt of
           (c, Some e) \<Rightarrow> (row_cells[i := c], Some e)
         | (c, None) \<Rightarrow> fill_row rest (row_cells[i := c]))
      else (row_cells, Some IndexError))"

text \<open>The loop of lines 78 to 82 over \<open>table_data[1:]\<close>.\<close>

fun add_data_rows :: "nat \<Rightarrow> string list list \<Rightarrow> table \<Rightarrow> table \<times> py_exception option" where
  "add_data_rows n [] t = (t, None)"
| "add_data_rows n (row_data # rest) t =
     (if length row_data = n then
        (case fill_row (enumerate 0 row_data) (new_row_cells t) of
           (row_cells, None) \<Rightarrow> add_data_rows n rest (t\<lparr>table_rows := table_rows t @ [row_cells]\<rparr>)
         | (row_cells, Some e) \<Rightarrow> (t\<lparr>table_rows := table_rows t @ [row_cells]\<rparr>, Some e))
      else add_data_rows n rest t)"

text \<open>The \<open>try\<close> block of lines 68 to 82: the table as it is when the block ends, and
  the exception that ended it, if any.\<close>

definition build_table :: "string list \<Rightarrow> string list list \<Rightarrow> nat \<Rightarrow> table \<times> py_exception option" where
  "build_table header data_rows n =
     (let table_docx = (add_table n)\<lparr>table_style := ''Table Grid''\<rparr> in
      case fill_header n (enumerate 0 header) (new_row_cells table_docx) of
        (hdr_cells, Some e) \<Rightarrow> (table_docx\<lparr>table_rows := [hdr_cells]\<rparr>, Some e)
      | (hdr_cells, None) \<Rightarrow>
          add_data_rows n data_rows (table_docx\<lparr>table_rows := [hdr_cells]\<rparr>))"

section \<open>Rendering the elements\<close>

definition fallback_text :: "string \<Rightarrow> string" where
  "fallback_text content = ''[Fallback: Error rendering table. Raw Markdown:]'' @ [LF] @ content"

definition unknown_text :: "pylib \<Rightarrow> pyval \<Rightarrow> pyval \<Rightarrow> string" where
  "unknown_text L el_type content =
     ''[Unknown type: '' @ format_value L el_type @ ''] '' @ format_value L content"

text \<open>
  Lines 58 to 89, for a \<open>str\<close> content: the table branch. The table is in the document
  from line 68 on; an exception of the \<open>try\<close> block is caught, and the fallback
  paragraph of line 89 is added after the table as it then is. An exception of that call
  leaves the function.
\<close>

definition render_table :: "document \<Rightarrow> string \<Rightarrow> py_exception + document" where
  "render_table doc content =
     (if content \<noteq> [] \<and> strip content \<noteq> [] then
        (case parse_markdown_table content of
           [] \<Rightarrow> Inr doc
         | header # data_rows \<Rightarrow>
             if header \<noteq> [] \<and> length header > 0 then
               (case build_table header data_rows (length header) of
                  (t, None) \<Rightarrow> Inr (doc @ [Table t])
                | (t, Some e) \<Rightarrow>
                    add_paragraph (doc @ [Table t]) (PStr (fallback_text content)) ''Normal'')
             else Inr doc)
      else Inr doc)"

text \<open>
  The body of the loop of line 43 (lines 44 to 93), on the document built so far.
  A method that the value does not have raises \<open>AttributeError\<close>.
\<close>

definition render_element :: "pylib \<Rightarrow> document \<Rightarrow> pyval \<Rightarrow> py_exception + document" where
  "render_element L doc element =
     (case py_get element ''type'' PNone of
        Inl e \<Rightarrow> Inl e
      | Inr el_type \<Rightarrow>
     (case py_get element ''content'' (PStr []) of
        Inl e \<Rightarrow> Inl e
      | Inr content \<Rightarrow>
          if el_type = PStr ''heading_1'' then add_paragraph doc content ''Heading 1''
          else if el_type = PStr ''heading_2'' then add_paragraph doc content ''Heading 2''
          else if el_type = PStr ''heading_3'' then add_paragraph doc content ''Heading 3''
          else if el_type = PStr ''paragraph'' then
            (case content of
               PStr s \<Rightarrow>
                 (let processed_content = strip (join '' '' (splitlines s)) in
                  if processed_content \<noteq> [] then
                    add_paragraph doc (PStr processed_content) ''Normal''
                  else Inr doc)
             | _ \<Rightarrow> Inl AttributeError)
          else if el_type = PStr ''table_markdown'' then
            (if truthy content then
               (case content of
                  PStr s \<Rightarrow> render_table doc s
                | _ \<Rightarrow> Inl AttributeError)
             else Inr doc)
          else
            (if truthy content then
               add_paragraph doc (PStr (unknown_text L el_type content)) ''Normal''
             else Inr doc)))"

fun render_elements :: "pylib \<Rightarrow> document \<Rightarrow> pyval list \<Rightarrow> py_exception + document" where
  "render_elements L doc [] = Inr doc"
| "render_elements L doc (element # rest) =
     (case render_element L doc element of
        Inl e \<Rightarrow> Inl e
      | Inr doc' \<Rightarrow> render_elements L doc' rest)"

section \<open>The assembler\<close>

text \<open>
  How \<open>create_docx_from_structured_data\<close> ends before it writes: it reports a JSON
  syntax error and returns \<open>False\<close> (line 39), it reports that the key is missing or
  not a list and returns \<open>False\<close> (line 36), or it reaches \<open>doc.save\<close> (line 96) with
  the document it has built. An exception that nothing catches is the \<open>Inl\<close> result.
\<close>

datatype outcome = Decode_Error_Reported | Not_Found_Reported | Save document string

definition create_docx_from_structured_data :: "pylib \<Rightarrow> string \<Rightarrow> string \<Rightarrow> py_exception + outcome" where
  "create_docx_from_structured_data L json_content_str output_docx_path =
     (case json_loads L json_content_str of
        None \<Rightarrow> Inr Decode_Error_Reported
      | Some data \<Rightarrow>
     (case py_contains data ''document_elements'' of
        Inl e \<Rightarrow> Inl e
      | Inr False \<Rightarrow> Inr Not_Found_Reported
      | Inr True \<Rightarrow>
     (case py_subscript data ''document_elements'' of
        Inl e \<Rightarrow> Inl e
      | Inr v \<Rightarrow>
          if \<not> isinstance_list v then Inr Not_Found_Reported
          else
     (case py_get data ''document_elements'' (PList []) of
        Inl e \<Rightarrow> Inl e
      | Inr elements \<Rightarrow>
     (case py_iter elements of
        Inl e \<Rightarrow> Inl e
      | Inr els \<Rightarrow>
     (case render_elements L [] els of
        Inl e \<Rightarrow> Inl e
      | Inr doc \<Rightarrow> Inr (Save doc output_docx_path)))))))"

section \<open>Definitions for the statements\<close>

text \<open>
  A library for the concrete checks: \<open>json.loads\<close> parses the one text \<open>txt\<close> to
  \<open>data\<close> and rejects every other text; \<open>str()\<close> is right on \<open>None\<close>, and the
  checks apply it to no other value.
\<close>

definition example_lib :: "string \<Rightarrow> pyval \<Rightarrow> pylib" where
  "example_lib txt data =
     \<lparr>json_loads = (\<lambda>s. if s = txt then Some data else None), py_str = (\<lambda>v. ''None'')\<rparr>"

text \<open>The text of a paragraph element: the expression of line 54.\<close>

definition processed_paragraph :: "string \<Rightarrow> string" where
  "processed_paragraph content = strip (join '' '' (splitlines content))"

text \<open>The five recognized values of \<open>type\<close>.\<close>

definition known_types :: "pyval list" where
  "known_types = map PStr [''heading_1'', ''heading_2'', ''heading_3'', ''paragraph'', ''table_markdown'']"


text \<open>
  For the row invariant: the lines that the test of line 14 lets through, and what the
  spec says of a later row, which is cut to the header's cell count or filled up to it
  with empty strings.
\<close>

definition pipe_delimited :: "string \<Rightarrow> bool" where
  "pipe_delimited line = (startswith line ''|'' \<and> endswith line ''|'')"

definition accepted_lines :: "string \<Rightarrow> string list" where
  "accepted_lines markdown_table_content = filter pipe_delimited (table_lines markdown_table_content)"

definition fit_row :: "nat \<Rightarrow> string list \<Rightarrow> string list" where
  "fit_row n cells =
     (if length cells > n then take n cells else cells @ replicate (n - length cells) [])"

definition normalized_grid :: "string list list \<Rightarrow> string list list" where
  "normalized_grid rows =
     (case rows of [] \<Rightarrow> [] | header # rest \<Rightarrow> header # map (fit_row (length header)) rest)"

text \<open>An element that keeps the contract: an object whose \<open>content\<close> is a \<open>str\<close>.\<close>

fun conforming :: "pyval \<Rightarrow> bool" where
  "conforming (PDict kvs) = (case map_of kvs ''content'' of Some (PStr c) \<Rightarrow> True | _ \<Rightarrow> False)"
| "conforming v = False"

text \<open>
  The end-to-end input of the spec: the JSON text, in which \<open>\n\<close> is a backslash and
  the letter n, the value \<open>json.loads\<close> gives for it, and the document that the
  program builds from that value.
\<close>

definition BACKSLASH :: char where
  "BACKSLASH = CHR 0x5C"

definition example_json_text :: string where
  \<open>example_json_text =
     ''{"document_elements":[{"type":"heading_1","content":"Title"},'' @
     ''{"type":"table_markdown","content":"| A | B |'' @ [BACKSLASH] @ ''n|---|---|'' @
     [BACKSLASH] @ ''n| 1 | 2 |"}]}''\<close>

definition example_json_data :: pyval where
  "example_json_data =
     PDict [(''document_elements'',
       PList [PDict [(''type'', PStr ''heading_1''), (''content'', PStr ''Title'')],
              PDict [(''type'', PStr ''table_markdown''),
                     (''content'', PStr (''| A | B |'' @ [LF] @ ''|---|---|'' @ [LF] @ ''| 1 | 2 |''))]])]"

definition example_document :: document where
  "example_document =
     [Paragraph (PStr ''Title'') ''Heading 1'',
      Table \<lparr>table_style = ''Table Grid'', table_cols = 2,
             table_rows =
               [[\<lparr>cell_text = ''A'', cell_bold = True\<rparr>, \<lparr>cell_text = ''B'', cell_bold = True\<rparr>],
                [\<lparr>cell_text = ''---'', cell_bold = False\<rparr>, \<lparr>cell_text = ''---'', cell_bold = False\<rparr>],
                [\<lparr>cell_text = ''1'', cell_bold = False\<rparr>, \<lparr>cell_text = ''2'', cell_bold = False\<rparr>]]\<rparr>]"


text \<open>
  The Markdown text of a grid, for the round trip: a row is written
  \<open>| c1 | c2 |\<close>, the rows are joined by line feeds. A cell is well formed when it has
  no whitespace at its ends, no \<open>|\<close> and no line feed; a grid is well formed when it
  has a header of at least one cell and every row has the header's cell count and
  well-formed cells. The separator line of a table of \<open>m\<close> columns is the row of
  \<open>m\<close> cells \<open>---\<close>.
\<close>

definition serialize_row :: "string list \<Rightarrow> string" where
  "serialize_row cells = ''| '' @ join '' | '' cells @ '' |''"

definition serialize_grid :: "string list list \<Rightarrow> string" where
  "serialize_grid grid = join [LF] (map serialize_row grid)"

definition well_formed_cell :: "string \<Rightarrow> bool" where
  "well_formed_cell c = (strip c = c \<and> CHR ''|'' \<notin> set c \<and> LF \<notin> set c)"

definition well_formed_grid :: "string list list \<Rightarrow> bool" where
  "well_formed_grid grid =
     (grid \<noteq> [] \<and> hd grid \<noteq> [] \<and>
      list_all (\<lambda>row. length row = length (hd grid) \<and> list_all well_formed_cell row) grid)"

definition separator_cells :: "nat \<Rightarrow> string list" where
  "separator_cells m = replicate m ''---''"

definition pad_cell :: "string \<Rightarrow> string" where
  "pad_cell c = '' '' @ c @ '' ''"

section \<open>Strings: auxiliary facts\<close>


lemma strip_Nil: "strip [] = []"
  by (simp add: strip_def strip_chars_def)

lemma set_strip_chars: "set (strip_chars chars s) \<subseteq> set s"
proof
  fix x
  assume "x \<in> set (strip_chars chars s)"
  then have "x \<in> set (dropWhile (\<lambda>c. c \<in> set chars) (rev (dropWhile (\<lambda>c. c \<in> set chars) s)))"
    by (simp add: strip_chars_def)
  then have "x \<in> set (rev (dropWhile (\<lambda>c. c \<in> set chars) s))"
    by (rule set_dropWhileD)
  then have "x \<in> set (dropWhile (\<lambda>c. c \<in> set chars) s)"
    by simp
  then show "x \<in> set s"
    by (rule set_dropWhileD)
qed

lemma hd_strip_chars:
  assumes "strip_chars chars s \<noteq> []"
  shows "hd (strip_chars chars s) \<notin> set chars"
proof -
  let ?P = "\<lambda>c. c \<in> set chars"
  let ?d = "dropWhile ?P s"
  from assms have ne: "dropWhile ?P (rev ?d) \<noteq> []"
    by (simp add: strip_chars_def)
  have dne: "?d \<noteq> []"
  proof
    assume "?d = []"
    with ne show False by simp
  qed
  have "rev ?d = takeWhile ?P (rev ?d) @ dropWhile ?P (rev ?d)" by simp
  then have "?d = rev (dropWhile ?P (rev ?d)) @ rev (takeWhile ?P (rev ?d))"
    by (metis rev_append rev_rev_ident)
  then have "hd ?d = hd (rev (dropWhile ?P (rev ?d)))"
    using ne by (metis hd_append2 rev_is_Nil_conv)
  moreover have "\<not> ?P (hd ?d)" using dne by (rule hd_dropWhile)
  ultimately show ?thesis by (simp add: strip_chars_def)
qed

lemma last_strip_chars:
  assumes "strip_chars chars s \<noteq> []"
  shows "last (strip_chars chars s) \<notin> set chars"
proof -
  let ?P = "\<lambda>c. c \<in> set chars"
  let ?r = "dropWhile ?P (rev (dropWhile ?P s))"
  from assms have ne: "?r \<noteq> []" by (simp add: strip_chars_def)
  then have "\<not> ?P (hd ?r)" by (rule hd_dropWhile)
  moreover have "last (rev ?r) = hd ?r" using ne by (simp add: last_rev)
  ultimately show ?thesis by (simp add: strip_chars_def)
qed

lemma strip_chars_fixed:
  assumes "s = [] \<or> (hd s \<notin> set chars \<and> last s \<notin> set chars)"
  shows "strip_chars chars s = s"
proof (cases s)
  case Nil
  then show ?thesis by (simp add: strip_chars_def)
next
  case (Cons a as)
  with assms have h: "a \<notin> set chars" and l: "last s \<notin> set chars" by auto
  have 1: "dropWhile (\<lambda>c. c \<in> set chars) s = s" using Cons h by simp
  obtain y ys where r: "rev s = y # ys" using Cons by (cases "rev s") auto
  then have "y = last s" using Cons by (metis hd_rev list.sel(1) list.simps(3))
  then have "dropWhile (\<lambda>c. c \<in> set chars) (y # ys) = y # ys"
    using l by simp
  then have 2: "dropWhile (\<lambda>c. c \<in> set chars) (rev s) = rev s"
    by (simp only: r)
  show ?thesis by (simp add: strip_chars_def 1 2)
qed

lemma set_join: "set (join sep xs) \<subseteq> set sep \<union> \<Union> (set ` set xs)"
  by (induction sep xs rule: join.induct) auto

lemma splitlines_from_chars:
  "p \<in> set (splitlines_from cur s) \<Longrightarrow> c \<in> set p \<Longrightarrow>
     c \<in> set cur \<or> (c \<in> set s \<and> \<not> is_linebreak c)"
proof (induction cur s rule: splitlines_from.induct)
  case (1 cur)
  then show ?case by (auto split: if_splits)
next
  case (2 cur c')
  then show ?case by (auto split: if_splits)
next
  case (3 cur c' d cs)
  then show ?case by (fastforce split: if_splits)
qed



















section \<open>The parser: the grid it returns\<close>

lemma split_on_not_Nil: "split_on sep s \<noteq> []"
  by (induction s) (auto split: list.splits)

lemma line_cells_not_Nil: "line_cells line \<noteq> []"
  by (simp add: line_cells_def split_on_not_Nil)

lemma length_fit_row: "length (fit_row n cells) = n"
  by (simp add: fit_row_def)

lemma parse_line_skip:
  "\<not> pipe_delimited line \<Longrightarrow> parse_line st (i, line) = st"
  by (auto simp: parse_line_def pipe_delimited_def)

lemma parse_line_header:
  "pipe_delimited line \<Longrightarrow> \<not> header_parsed st \<Longrightarrow>
     parse_line st (i, line) =
       st\<lparr>table_data := table_data st @ [line_cells line],
          num_cols := length (line_cells line), header_parsed := True\<rparr>"
  by (simp add: parse_line_def pipe_delimited_def append_row_def Let_def)

lemma parse_line_row:
  "pipe_delimited line \<Longrightarrow> header_parsed st \<Longrightarrow> 0 < num_cols st \<Longrightarrow>
     parse_line st (i, line) =
       st\<lparr>table_data := table_data st @ [fit_row (num_cols st) (line_cells line)]\<rparr>"
  by (auto simp: parse_line_def pipe_delimited_def append_row_def Let_def fit_row_def)

lemma loop_after_header:
  "header_parsed st \<Longrightarrow> 0 < num_cols st \<Longrightarrow>
     table_data (foldl parse_line st (enumerate n ls)) =
       table_data st @ map (fit_row (num_cols st)) (map line_cells (filter pipe_delimited ls))"
proof (induction ls arbitrary: st n)
  case Nil
  then show ?case by simp
next
  case (Cons l ls)
  show ?case
  proof (cases "pipe_delimited l")
    case True
    let ?st = "st\<lparr>table_data := table_data st @ [fit_row (num_cols st) (line_cells l)]\<rparr>"
    have step: "parse_line st (n, l) = ?st"
      using True Cons.prems by (rule parse_line_row)
    have "header_parsed ?st" "0 < num_cols ?st"
      using Cons.prems by simp_all
    from Cons.IH [OF this, of "Suc n"] show ?thesis
      using True by (simp add: step)
  next
    case False
    then show ?thesis
      using Cons.IH [OF Cons.prems, of "Suc n"] by (simp add: parse_line_skip)
  qed
qed

lemma loop_before_header:
  "\<not> header_parsed st \<Longrightarrow> table_data st = [] \<Longrightarrow>
     table_data (foldl parse_line st (enumerate n ls)) =
       normalized_grid (map line_cells (filter pipe_delimited ls))"
proof (induction ls arbitrary: n)
  case Nil
  then show ?case by (simp add: normalized_grid_def)
next
  case (Cons l ls)
  show ?case
  proof (cases "pipe_delimited l")
    case True
    let ?st = "st\<lparr>table_data := table_data st @ [line_cells l],
                   num_cols := length (line_cells l), header_parsed := True\<rparr>"
    have step: "parse_line st (n, l) = ?st"
      using True Cons.prems(1) by (rule parse_line_header)
    have "header_parsed ?st" "0 < num_cols ?st"
      using line_cells_not_Nil by simp_all
    from loop_after_header [OF this, of "Suc n" ls] show ?thesis
      using True Cons.prems(2) by (simp add: step normalized_grid_def)
  next
    case False
    then show ?thesis
      using Cons.IH [OF Cons.prems, of "Suc n"] by (simp add: parse_line_skip)
  qed
qed

lemma parse_markdown_table_grid:
  "parse_markdown_table s = normalized_grid (map line_cells (accepted_lines s))"
proof (cases "table_lines s = []")
  case True
  then show ?thesis
    by (simp add: parse_markdown_table_def accepted_lines_def normalized_grid_def)
next
  case False
  then show ?thesis
    using loop_before_header
      [of "\<lparr>table_data = [], header_parsed = False, num_cols = 0\<rparr>" 0 "table_lines s"]
    by (simp add: parse_markdown_table_def accepted_lines_def Let_def)
qed

lemma normalized_grid_lengths:
  "row \<in> set (normalized_grid rows) \<Longrightarrow> length row = length (hd (normalized_grid rows))"
  by (auto simp: normalized_grid_def length_fit_row split: list.splits)

text \<open>
  Claim C3. The grid that \<open>parse_markdown_table\<close> returns is the first accepted line's
  cells followed by the cells of each later accepted line, cut to the header's count when
  there are more and filled with empty strings when there are fewer; so every row has the
  cell count of the first row.
\<close>

theorem rows_have_header_length:
  "parse_markdown_table s = normalized_grid (map line_cells (accepted_lines s))
   \<and> (\<forall>row \<in> set (parse_markdown_table s). length row = length (hd (parse_markdown_table s)))"
  using parse_markdown_table_grid [of s] normalized_grid_lengths by simp

theorem rows_have_header_length_witness:
  "parse_markdown_table (''| A | B |'' @ [LF] @ ''| 1 | 2 | 3 |'' @ [LF] @ ''| x |'')
     = [[''A'', ''B''], [''1'', ''2''], [''x'', []]]
   \<and> map line_cells (accepted_lines (''| A | B |'' @ [LF] @ ''| 1 | 2 | 3 |'' @ [LF] @ ''| x |''))
     = [[''A'', ''B''], [''1'', ''2'', ''3''], [''x'']]"
proof -
  let ?s = "''| A | B |'' @ [LF] @ ''| 1 | 2 | 3 |'' @ [LF] @ ''| x |''"
  have cells: "map line_cells (accepted_lines ?s) = [[''A'', ''B''], [''1'', ''2'', ''3''], [''x'']]"
    by code_simp
  have "parse_markdown_table ?s = normalized_grid (map line_cells (accepted_lines ?s))"
    using rows_have_header_length [of ?s] by (rule conjunct1)
  then have "parse_markdown_table ?s = normalized_grid [[''A'', ''B''], [''1'', ''2'', ''3''], [''x'']]"
    by (simp only: cells)
  then have "parse_markdown_table ?s = [[''A'', ''B''], [''1'', ''2''], [''x'', []]]"
    by (simp add: normalized_grid_def fit_row_def)
  with cells show ?thesis by (rule conjI [rotated])
qed

text \<open>
  Claim C1. When the first two parsed lines begin and end with \<open>|\<close> and the second
  has only characters of the separator set \<open>-|: \<close>, the second line is not skipped: its
  cells, fitted to the header's count, are the second row of the returned grid. The test
  of line 15 is inside the branch for lines that do not begin and end with \<open>|\<close>, which
  are skipped whatever it gives.
\<close>

theorem separator_line_is_second_row:
  assumes "table_lines s = l0 # l1 # rest"
    and "pipe_delimited l0" and "pipe_delimited l1"
    and "list_all (\<lambda>c. c \<in> set ''-|: '') l1"
  shows "2 \<le> length (parse_markdown_table s)
       \<and> parse_markdown_table s ! 1 = fit_row (length (line_cells l0)) (line_cells l1)"
proof -
  have "accepted_lines s = l0 # l1 # filter pipe_delimited rest"
    using assms(1-3) by (simp add: accepted_lines_def)
  then have "parse_markdown_table s =
      line_cells l0 # fit_row (length (line_cells l0)) (line_cells l1)
        # map (fit_row (length (line_cells l0))) (map line_cells (filter pipe_delimited rest))"
    by (simp add: parse_markdown_table_grid normalized_grid_def)
  then show ?thesis by simp
qed

theorem separator_line_is_second_row_witness:
  "parse_markdown_table (''| A | B |'' @ [LF] @ ''|---|---|'' @ [LF] @ ''| 1 | 2 |'') ! 1
     = [''---'', ''---'']
   \<and> table_lines (''| A | B |'' @ [LF] @ ''|---|---|'' @ [LF] @ ''| 1 | 2 |'')
     = [''| A | B |'', ''|---|---|'', ''| 1 | 2 |'']"
proof -
  let ?s = "''| A | B |'' @ [LF] @ ''|---|---|'' @ [LF] @ ''| 1 | 2 |''"
  have l: "table_lines ?s = ''| A | B |'' # ''|---|---|'' # [''| 1 | 2 |'']"
    by code_simp
  have p0: "pipe_delimited ''| A | B |''" and p1: "pipe_delimited ''|---|---|''"
    by code_simp+
  have a: "list_all (\<lambda>c. c \<in> set ''-|: '') ''|---|---|''"
    by code_simp
  have f: "fit_row (length (line_cells ''| A | B |'')) (line_cells ''|---|---|'') = [''---'', ''---'']"
    by code_simp
  have "parse_markdown_table ?s ! 1 = fit_row (length (line_cells ''| A | B |'')) (line_cells ''|---|---|'')"
    using separator_line_is_second_row [OF l p0 p1 a] by (rule conjunct2)
  then have "parse_markdown_table ?s ! 1 = [''---'', ''---'']"
    by (simp only: f)
  then show ?thesis using l by (rule conjI)
qed

section \<open>The parser: the round trip of a well-formed grid\<close>

lemma split_on_no_sep: "sep \<notin> set a \<Longrightarrow> split_on sep a = [a]"
  by (induction a) auto

lemma split_on_append: "sep \<notin> set a \<Longrightarrow> split_on sep (a @ sep # b) = a # split_on sep b"
  by (induction a) auto

lemma split_on_join:
  "xs \<noteq> [] \<Longrightarrow> \<forall>x \<in> set xs. sep \<notin> set x \<Longrightarrow> split_on sep (join [sep] xs) = xs"
proof (induction "[sep]" xs rule: join.induct)
  case 1
  then show ?case by simp
next
  case (2 x)
  then show ?case by (simp add: split_on_no_sep)
next
  case (3 x y ys)
  then show ?case by (simp add: split_on_append)
qed

lemma padded_join:
  "cells \<noteq> [] \<Longrightarrow> '' '' @ join '' | '' cells @ '' '' = join ''|'' (map pad_cell cells)"
proof (induction "'' | ''" cells rule: join.induct)
  case 1
  then show ?case by simp
next
  case (2 x)
  then show ?case by (simp add: pad_cell_def)
next
  case (3 x y ys)
  then show ?case by (simp add: pad_cell_def)
qed

lemma strip_pipes_row:
  assumes "cells \<noteq> []"
  shows "strip_chars ''|'' (serialize_row cells) = join ''|'' (map pad_cell cells)"
proof -
  have "strip_chars ''|'' (serialize_row cells) = '' '' @ join '' | '' cells @ '' ''"
    by (simp add: strip_chars_def serialize_row_def)
  also have "\<dots> = join ''|'' (map pad_cell cells)"
    using assms by (rule padded_join)
  finally show ?thesis .
qed


lemma space_in_whitespace: "CHR '' '' \<in> set whitespace"
  by (simp add: whitespace_def)

lemma pipe_not_whitespace: "CHR ''|'' \<notin> set whitespace"
  by (simp add: whitespace_def)

lemma strip_pad_cell:
  assumes "strip c = c"
  shows "strip (pad_cell c) = c"
proof (cases "c = []")
  case True
  then show ?thesis
    by (simp add: pad_cell_def strip_def strip_chars_def space_in_whitespace)
next
  case False
  let ?P = "\<lambda>x. x \<in> set whitespace"
  have "strip_chars whitespace c \<noteq> []"
    using False assms by (simp add: strip_def)
  then have h: "\<not> ?P (hd c)" and l: "\<not> ?P (last c)"
    using hd_strip_chars [of whitespace c] last_strip_chars [of whitespace c] assms
    by (simp_all add: strip_def)
  obtain x xs where c: "c = x # xs" using False by (cases c) auto
  with h have 1: "dropWhile ?P (pad_cell c) = c @ '' ''"
    by (simp add: pad_cell_def space_in_whitespace)
  obtain y ys where r: "rev c = y # ys" using False by (cases "rev c") auto
  then have "y = last c" using False by (metis hd_rev list.sel(1))
  with l have "dropWhile ?P (y # ys) = y # ys" by simp
  then have "dropWhile ?P (rev c) = rev c" by (simp only: r)
  then have 2: "dropWhile ?P (rev (c @ '' '')) = rev c"
    by (simp add: space_in_whitespace)
  have "strip (pad_cell c) = rev (dropWhile ?P (rev (dropWhile ?P (pad_cell c))))"
    by (simp only: strip_def strip_chars_def)
  also have "\<dots> = rev (dropWhile ?P (rev (c @ '' '')))"
    by (simp only: 1)
  also have "\<dots> = rev (rev c)"
    by (simp only: 2)
  finally show ?thesis by simp
qed

lemma line_cells_serialize_row:
  assumes "cells \<noteq> []" and "list_all well_formed_cell cells"
  shows "line_cells (serialize_row cells) = cells"
proof -
  have nopipe: "\<forall>x \<in> set (map pad_cell cells). CHR ''|'' \<notin> set x"
    using assms(2) by (auto simp: list_all_iff well_formed_cell_def pad_cell_def)
  have "split_on CHR ''|'' (join ''|'' (map pad_cell cells)) = map pad_cell cells"
    using split_on_join [of "map pad_cell cells" "CHR ''|''"] nopipe assms(1) by simp
  then have "split_on CHR ''|'' (strip_chars ''|'' (serialize_row cells)) = map pad_cell cells"
    by (simp only: strip_pipes_row [OF assms(1)])
  moreover have "map clean_cell (map pad_cell cells) = cells"
    using assms(2) by (induction cells) (simp_all add: clean_cell_def well_formed_cell_def strip_pad_cell)
  ultimately show ?thesis by (simp add: line_cells_def)
qed

lemma pipe_delimited_serialize_row: "pipe_delimited (serialize_row cells)"
  by (simp add: pipe_delimited_def startswith_def endswith_def serialize_row_def)

lemma hd_serialize_row: "hd (serialize_row cells) = CHR ''|''"
  by (simp add: serialize_row_def)

lemma last_serialize_row: "last (serialize_row cells) = CHR ''|''"
  by (simp add: serialize_row_def)

lemma serialize_row_not_Nil: "serialize_row cells \<noteq> []"
  by (simp add: serialize_row_def)

lemma strip_serialize_row: "strip (serialize_row cells) = serialize_row cells"
  unfolding strip_def
  by (rule strip_chars_fixed)
     (simp add: hd_serialize_row last_serialize_row pipe_not_whitespace)

lemma join_not_Nil: "x \<noteq> [] \<Longrightarrow> join sep (x # xs) \<noteq> []"
  by (cases xs) auto

lemma hd_join: "x \<noteq> [] \<Longrightarrow> hd (join sep (x # xs)) = hd x"
  by (cases xs) auto

lemma join_last_not_Nil: "xs \<noteq> [] \<Longrightarrow> last xs \<noteq> [] \<Longrightarrow> join sep xs \<noteq> []"
  by (induction sep xs rule: join.induct) auto

lemma last_join: "xs \<noteq> [] \<Longrightarrow> last xs \<noteq> [] \<Longrightarrow> last (join sep xs) = last (last xs)"
proof (induction sep xs rule: join.induct)
  case (1 sep)
  then show ?case by simp
next
  case (2 sep x)
  then show ?case by simp
next
  case (3 sep x y ys)
  then have ne: "join sep (y # ys) \<noteq> []"
    using join_last_not_Nil [of "y # ys" sep] by simp
  have "last (join sep (x # y # ys)) = last (join sep (y # ys))"
    using ne by simp
  then show ?case using 3 by simp
qed

lemma set_serialize_row: "set (serialize_row cells) \<subseteq> {CHR ''|'', CHR '' ''} \<union> \<Union> (set ` set cells)"
  using set_join [of "'' | ''" cells] by (auto simp: serialize_row_def)

lemma strip_serialize_grid:
  assumes "grid \<noteq> []"
  shows "strip (serialize_grid grid) = serialize_grid grid"
proof -
  obtain r rs where g: "grid = r # rs" using assms by (cases grid) auto
  have h: "hd (serialize_grid grid) = CHR ''|''"
    using hd_join [of "serialize_row r" "[LF]" "map serialize_row rs"]
    by (simp add: g serialize_grid_def serialize_row_not_Nil hd_serialize_row)
  have "last (map serialize_row grid) \<noteq> []"
    using assms by (simp add: last_map serialize_row_not_Nil)
  then have l: "last (serialize_grid grid) = CHR ''|''"
    using last_join [of "map serialize_row grid" "[LF]"] assms
    by (simp add: serialize_grid_def last_map last_serialize_row)
  show ?thesis
    unfolding strip_def
    by (rule strip_chars_fixed) (simp add: h l pipe_not_whitespace)
qed

lemma table_lines_serialize_grid:
  assumes "grid \<noteq> []" and "\<forall>row \<in> set grid. \<forall>c \<in> set row. LF \<notin> set c"
  shows "table_lines (serialize_grid grid) = map serialize_row grid"
proof -
  have lf: "LF \<noteq> CHR ''|''" "LF \<noteq> CHR '' ''"
    by (simp_all add: LF_def)
  have nolf: "\<forall>x \<in> set (map serialize_row grid). LF \<notin> set x"
  proof
    fix x
    assume "x \<in> set (map serialize_row grid)"
    then obtain row where row: "row \<in> set grid" and x: "x = serialize_row row" by auto
    show "LF \<notin> set x"
      using set_serialize_row [of row] assms(2) row lf unfolding x by auto
  qed
  have "split_on LF (serialize_grid grid) = map serialize_row grid"
    using split_on_join [of "map serialize_row grid" LF] nolf assms(1)
    by (simp add: serialize_grid_def)
  then have "split_on LF (strip (serialize_grid grid)) = map serialize_row grid"
    by (simp only: strip_serialize_grid [OF assms(1)])
  moreover have "filter (\<lambda>line. strip line \<noteq> []) (map serialize_row grid) = map serialize_row grid"
    by (simp add: filter_map o_def strip_serialize_row serialize_row_not_Nil)
  moreover have "map strip (map serialize_row grid) = map serialize_row grid"
    by (simp add: strip_serialize_row)
  ultimately show ?thesis by (simp add: table_lines_def)
qed

lemma fit_row_same: "length cells = n \<Longrightarrow> fit_row n cells = cells"
  by (simp add: fit_row_def)

lemma normalized_grid_rectangular:
  "\<forall>row \<in> set grid. length row = length (hd grid) \<Longrightarrow> normalized_grid grid = grid"
proof (cases grid)
  case Nil
  then show ?thesis by (simp add: normalized_grid_def)
next
  case (Cons header rest)
  assume "\<forall>row \<in> set grid. length row = length (hd grid)"
  then have "\<forall>row \<in> set rest. fit_row (length header) row = row"
    using Cons by (simp add: fit_row_same)
  then have "map (fit_row (length header)) rest = rest"
    by (induction rest) simp_all
  then show ?thesis using Cons by (simp add: normalized_grid_def)
qed

lemma well_formed_gridD:
  assumes "well_formed_grid grid"
  shows "grid \<noteq> []"
    and "hd grid \<noteq> []"
    and "\<And>row. row \<in> set grid \<Longrightarrow> length row = length (hd grid)"
    and "\<And>row. row \<in> set grid \<Longrightarrow> list_all well_formed_cell row"
proof -
  from assms have a: "grid \<noteq> []" and b: "hd grid \<noteq> []"
    and c: "list_all (\<lambda>row. length row = length (hd grid) \<and> list_all well_formed_cell row) grid"
    unfolding well_formed_grid_def by blast+
  show "grid \<noteq> []" by (rule a)
  show "hd grid \<noteq> []" by (rule b)
  show "length row = length (hd grid)" if "row \<in> set grid" for row
    using c that unfolding list_all_iff by blast
  show "list_all well_formed_cell row" if "row \<in> set grid" for row
    using c that unfolding list_all_iff by blast
qed

lemma map_line_cells_serialize_row:
  "\<forall>row \<in> set grid. row \<noteq> [] \<and> list_all well_formed_cell row \<Longrightarrow>
     map line_cells (map serialize_row grid) = grid"
  by (induction grid) (simp_all add: line_cells_serialize_row)

lemma accepted_serialize_grid:
  assumes "table_lines (serialize_grid grid) = map serialize_row grid"
  shows "accepted_lines (serialize_grid grid) = map serialize_row grid"
proof -
  have "filter pipe_delimited (map serialize_row grid) = map serialize_row grid"
    by (induction grid) (simp_all add: pipe_delimited_serialize_row)
  then show ?thesis by (simp only: accepted_lines_def assms)
qed

lemma parse_serialize_grid:
  assumes "well_formed_grid grid"
  shows "parse_markdown_table (serialize_grid grid) = grid"
proof -
  note wf = well_formed_gridD [OF assms]
  have rne: "\<forall>row \<in> set grid. row \<noteq> [] \<and> list_all well_formed_cell row"
  proof
    fix row
    assume r: "row \<in> set grid"
    have "length row = length (hd grid)" using r by (rule wf(3))
    then have "row \<noteq> []" using wf(2) by auto
    then show "row \<noteq> [] \<and> list_all well_formed_cell row" using wf(4) [OF r] by simp
  qed
  have nolf: "\<forall>row \<in> set grid. \<forall>c \<in> set row. LF \<notin> set c"
  proof (intro ballI)
    fix row c
    assume r: "row \<in> set grid" and c: "c \<in> set row"
    have "well_formed_cell c" using wf(4) [OF r] c unfolding list_all_iff by blast
    then show "LF \<notin> set c" by (simp add: well_formed_cell_def)
  qed
  have lines: "table_lines (serialize_grid grid) = map serialize_row grid"
    using wf(1) nolf by (rule table_lines_serialize_grid)
  have acc: "accepted_lines (serialize_grid grid) = map serialize_row grid"
    using lines by (rule accepted_serialize_grid)
  have cells: "map line_cells (map serialize_row grid) = grid"
    using rne by (rule map_line_cells_serialize_row)
  have "parse_markdown_table (serialize_grid grid) = normalized_grid grid"
    by (simp only: parse_markdown_table_grid acc cells)
  also have "\<dots> = grid"
    using wf(3) by (intro normalized_grid_rectangular) blast
  finally show ?thesis .
qed


lemma well_formed_separator: "list_all well_formed_cell (separator_cells m)"
proof -
  have "strip ''---'' = ''---''" by code_simp
  then have "well_formed_cell ''---''" by (simp add: well_formed_cell_def LF_def)
  then show ?thesis by (simp add: separator_cells_def list_all_iff)
qed

lemma well_formed_with_separator:
  assumes "well_formed_grid (header # data_rows)"
  shows "well_formed_grid (header # separator_cells (length header) # data_rows)"
  using assms well_formed_separator [of "length header"]
  by (simp add: well_formed_grid_def separator_cells_def)

text \<open>
  Claim C6. For a well-formed table, the text without a separator line parses to the
  header and the data rows: \<open>N + 1\<close> rows, and the round trip gives the grid back.
  The text with the separator line after the header, as a Markdown table has it, parses to
  \<open>N + 2\<close> rows: the separator's cells are the second row.
\<close>

theorem separator_line_counted_as_data:
  assumes "well_formed_grid (header # data_rows)"
  shows "parse_markdown_table (serialize_grid (header # data_rows)) = header # data_rows
       \<and> parse_markdown_table (serialize_grid (header # separator_cells (length header) # data_rows))
           = header # separator_cells (length header) # data_rows
       \<and> length (parse_markdown_table
                   (serialize_grid (header # separator_cells (length header) # data_rows)))
           = length data_rows + 2"
proof -
  have a: "parse_markdown_table (serialize_grid (header # data_rows)) = header # data_rows"
    using assms by (rule parse_serialize_grid)
  have b: "parse_markdown_table (serialize_grid (header # separator_cells (length header) # data_rows))
           = header # separator_cells (length header) # data_rows"
    using well_formed_with_separator [OF assms] by (rule parse_serialize_grid)
  from a b show ?thesis by simp
qed

theorem separator_line_counted_as_data_witness:
  "parse_markdown_table
     (''| Name | Qty |'' @ [LF] @ ''| --- | --- |'' @ [LF] @ ''| pen | 2 |'' @ [LF] @ ''| ink | 5 |'')
     = [[''Name'', ''Qty''], [''---'', ''---''], [''pen'', ''2''], [''ink'', ''5'']]
   \<and> parse_markdown_table (''| Name | Qty |'' @ [LF] @ ''| pen | 2 |'' @ [LF] @ ''| ink | 5 |'')
     = [[''Name'', ''Qty''], [''pen'', ''2''], [''ink'', ''5'']]"
proof -
  let ?h = "[''Name'', ''Qty'']"
  let ?rows = "[[''pen'', ''2''], [''ink'', ''5'']]"
  have wf: "well_formed_grid (?h # ?rows)"
    by code_simp
  have s1: "serialize_grid (?h # [''---'', ''---''] # ?rows) =
        ''| Name | Qty |'' @ [LF] @ ''| --- | --- |'' @ [LF] @ ''| pen | 2 |'' @ [LF] @ ''| ink | 5 |''"
    by code_simp
  have s2: "serialize_grid (?h # ?rows) =
        ''| Name | Qty |'' @ [LF] @ ''| pen | 2 |'' @ [LF] @ ''| ink | 5 |''"
    by code_simp
  have sep: "separator_cells (length ?h) = [''---'', ''---'']"
    by code_simp
  from separator_line_counted_as_data [OF wf]
  have a: "parse_markdown_table (serialize_grid (?h # ?rows)) = ?h # ?rows"
    and b: "parse_markdown_table (serialize_grid (?h # separator_cells (length ?h) # ?rows))
           = ?h # separator_cells (length ?h) # ?rows"
    by blast+
  from b have "parse_markdown_table (serialize_grid (?h # [''---'', ''---''] # ?rows))
           = ?h # [''---'', ''---''] # ?rows"
    by (simp only: sep)
  then have b': "parse_markdown_table
     (''| Name | Qty |'' @ [LF] @ ''| --- | --- |'' @ [LF] @ ''| pen | 2 |'' @ [LF] @ ''| ink | 5 |'')
     = ?h # [''---'', ''---''] # ?rows"
    by (simp only: s1)
  from a have a': "parse_markdown_table (''| Name | Qty |'' @ [LF] @ ''| pen | 2 |'' @ [LF] @ ''| ink | 5 |'')
     = ?h # ?rows"
    by (simp only: s2)
  from b' a' show ?thesis by (rule conjI)
qed

section \<open>The document library: what it accepts\<close>

lemma xml_compatible_Nil: "xml_compatible []"
  by (simp add: xml_compatible_def)

lemma xml_compatible_append:
  "xml_compatible (a @ b) \<longleftrightarrow> xml_compatible a \<and> xml_compatible b"
  by (simp add: xml_compatible_def)

lemma xml_compatible_Cons:
  "xml_compatible (c # s) \<longleftrightarrow> c \<notin> set xml_forbidden \<and> xml_compatible s"
  by (simp add: xml_compatible_def)

lemma xml_compatible_subset:
  "set a \<subseteq> set b \<Longrightarrow> xml_compatible b \<Longrightarrow> xml_compatible a"
  by (auto simp: xml_compatible_def list_all_iff)

lemma separators_allowed:
  "TAB \<notin> set xml_forbidden" "CR \<notin> set xml_forbidden" "LF \<notin> set xml_forbidden"
  by (simp_all add: xml_forbidden_def TAB_def CR_def LF_def)

lemma space_allowed: "CHR '' '' \<notin> set xml_forbidden"
  by (simp add: xml_forbidden_def)

lemma item_is_break: "is_substring [c] [CR, LF] \<longleftrightarrow> c = CR \<or> c = LF"
  by (auto simp: startswith_def)

lemma add_text_char:
  "add_text written bfr (PStr [c] # rest) =
     (if c = TAB \<or> c = CR \<or> c = LF then
        (if xml_compatible bfr then add_text (written @ bfr @ [c]) [] rest
         else (written, Some ValueError))
      else add_text written (bfr @ [c]) rest)"
  by (simp del: is_substring.simps add: item_is_break)

lemma add_text_accepts:
  "xml_compatible (bfr @ s) \<Longrightarrow>
     add_text written bfr (map (\<lambda>c. PStr [c]) s) = (written @ bfr @ s, None)"
proof (induction s arbitrary: written bfr)
  case Nil
  then show ?case by simp
next
  case (Cons c s)
  from Cons.prems have b: "xml_compatible bfr" and s: "xml_compatible s"
    and all: "xml_compatible ((bfr @ [c]) @ s)"
    by (simp_all add: xml_compatible_append xml_compatible_Cons)
  show ?case
  proof (cases "c = TAB \<or> c = CR \<or> c = LF")
    case True
    have "add_text (written @ bfr @ [c]) [] (map (\<lambda>c. PStr [c]) s) = ((written @ bfr @ [c]) @ [] @ s, None)"
      using s by (intro Cons.IH) simp
    then show ?thesis using True b by (simp add: add_text_char del: add_text.simps)
  next
    case False
    have "add_text written (bfr @ [c]) (map (\<lambda>c. PStr [c]) s) = (written @ (bfr @ [c]) @ s, None)"
      using all by (rule Cons.IH)
    then show ?thesis using False by (simp add: add_text_char del: add_text.simps)
  qed
qed

lemma add_text_refuses:
  "\<not> xml_compatible (bfr @ s) \<Longrightarrow>
     snd (add_text written bfr (map (\<lambda>c. PStr [c]) s)) = Some ValueError"
proof (induction s arbitrary: written bfr)
  case Nil
  then show ?case by simp
next
  case (Cons c s)
  show ?case
  proof (cases "c = TAB \<or> c = CR \<or> c = LF")
    case True
    then have c: "c \<notin> set xml_forbidden" using separators_allowed by auto
    show ?thesis
    proof (cases "xml_compatible bfr")
      case b: True
      with Cons.prems c have "\<not> xml_compatible ([] @ s)"
        by (simp add: xml_compatible_append xml_compatible_Cons)
      then have "snd (add_text (written @ bfr @ [c]) [] (map (\<lambda>c. PStr [c]) s)) = Some ValueError"
        by (rule Cons.IH)
      then show ?thesis using True b by (simp add: add_text_char del: add_text.simps)
    next
      case False
      then show ?thesis using True by (simp add: add_text_char del: add_text.simps)
    qed
  next
    case False
    from Cons.prems have "\<not> xml_compatible ((bfr @ [c]) @ s)" by simp
    then have "snd (add_text written (bfr @ [c]) (map (\<lambda>c. PStr [c]) s)) = Some ValueError"
      by (rule Cons.IH)
    then show ?thesis using False by (simp add: add_text_char del: add_text.simps)
  qed
qed

lemma run_text_accepts: "xml_compatible s \<Longrightarrow> run_text (PStr s) = (s, None)"
  using add_text_accepts [of "[]" s "[]"] by (simp add: run_text_def)

lemma run_text_refuses: "\<not> xml_compatible s \<Longrightarrow> snd (run_text (PStr s)) = Some ValueError"
  using add_text_refuses [of "[]" s "[]"] by (simp add: run_text_def)

lemma add_paragraph_str:
  "add_paragraph doc (PStr s) style =
     (if xml_compatible s then Inr (doc @ [Paragraph (PStr s) style]) else Inl ValueError)"
proof (cases "xml_compatible s")
  case True
  then show ?thesis by (simp add: add_paragraph_def run_text_accepts)
next
  case False
  then have ne: "s \<noteq> []" using xml_compatible_Nil by auto
  obtain w where "run_text (PStr s) = (w, Some ValueError)"
    using run_text_refuses [OF False] by (cases "run_text (PStr s)") auto
  then show ?thesis using False ne by (simp add: add_paragraph_def)
qed

lemma set_cell_text_accepts:
  "xml_compatible t \<Longrightarrow> set_cell_text t = (\<lparr>cell_text = t, cell_bold = False\<rparr>, None)"
  by (simp add: set_cell_text_def run_text_accepts)

lemma set_cell_text_refuses:
  "\<not> xml_compatible t \<Longrightarrow> snd (set_cell_text t) = Some ValueError"
proof -
  assume "\<not> xml_compatible t"
  then obtain w where "run_text (PStr t) = (w, Some ValueError)"
    using run_text_refuses [of t] by (cases "run_text (PStr t)") auto
  then show ?thesis by (simp add: set_cell_text_def)
qed


section \<open>Rendering: one element\<close>

lemma render_paragraph:
  assumes "py_get element ''type'' PNone = Inr (PStr ''paragraph'')"
    and "py_get element ''content'' (PStr []) = Inr (PStr c)"
  shows "render_element L doc element =
           (if processed_paragraph c = [] then Inr doc
            else if xml_compatible (processed_paragraph c)
            then Inr (doc @ [Paragraph (PStr (processed_paragraph c)) ''Normal''])
            else Inl ValueError)"
  using assms by (simp add: render_element_def processed_paragraph_def add_paragraph_str Let_def)




lemma strip_blank_no_lines: "strip c = [] \<Longrightarrow> table_lines c = []"
  by (simp add: table_lines_def strip_Nil)

lemma render_table_blank: "strip c = [] \<Longrightarrow> render_table doc c = Inr doc"
  by (simp add: render_table_def)

lemma render_table_no_rows: "parse_markdown_table c = [] \<Longrightarrow> render_table doc c = Inr doc"
  by (simp add: render_table_def)

lemma render_table_element:
  assumes "py_get element ''type'' PNone = Inr (PStr ''table_markdown'')"
    and "py_get element ''content'' (PStr []) = Inr (PStr c)"
  shows "render_element L doc element = (if c \<noteq> [] then render_table doc c else Inr doc)"
  using assms by (simp add: render_element_def)

lemma render_unknown:
  assumes "py_get element ''type'' PNone = Inr el_type"
    and "el_type \<notin> set known_types"
    and "py_get element ''content'' (PStr []) = Inr content"
  shows "render_element L doc element =
           (if truthy content
            then add_paragraph doc (PStr (unknown_text L el_type content)) ''Normal''
            else Inr doc)"
  using assms by (simp add: render_element_def known_types_def)

text \<open>
  Claim C8. A \<open>table_markdown\<close> element whose content is empty or only whitespace,
  or whose content parses to a grid with no row, leaves the document as it is.
\<close>

theorem empty_table_no_block:
  assumes "py_get element ''type'' PNone = Inr (PStr ''table_markdown'')"
    and "py_get element ''content'' (PStr []) = Inr (PStr c)"
  shows "(strip c = [] \<longrightarrow> render_element L doc element = Inr doc)
       \<and> (parse_markdown_table c = [] \<longrightarrow> render_element L doc element = Inr doc)"
  using render_table_element [OF assms] render_table_blank render_table_no_rows
  by simp

theorem empty_table_no_block_witness:
  "render_element (example_lib [] PNone) [Paragraph (PStr ''Title'') ''Heading 1'']
     (PDict [(''type'', PStr ''table_markdown''), (''content'', PStr [CHR '' '', LF])])
     = Inr [Paragraph (PStr ''Title'') ''Heading 1'']
   \<and> parse_markdown_table ''no table'' = []
   \<and> render_element (example_lib [] PNone) [Paragraph (PStr ''Title'') ''Heading 1'']
     (PDict [(''type'', PStr ''table_markdown''), (''content'', PStr ''no table'')])
     = Inr [Paragraph (PStr ''Title'') ''Heading 1'']"
proof -
  have blank: "strip [CHR '' '', LF] = []"
    by code_simp
  have norows: "parse_markdown_table ''no table'' = []"
    by code_simp
  show ?thesis
    using blank norows
      empty_table_no_block [of "PDict [(''type'', PStr ''table_markdown''), (''content'', PStr [CHR '' '', LF])]"
        "[CHR '' '', LF]" "example_lib [] PNone" "[Paragraph (PStr ''Title'') ''Heading 1'']"]
      empty_table_no_block [of "PDict [(''type'', PStr ''table_markdown''), (''content'', PStr ''no table'')]"
        "''no table''" "example_lib [] PNone" "[Paragraph (PStr ''Title'') ''Heading 1'']"]
    by simp
qed

lemma marker_compatible: "xml_compatible ''[Unknown type: ''" "xml_compatible ''] ''"
  by code_simp+








section \<open>Rendering: tables\<close>

lemma split_on_subset: "x \<in> set (split_on sep s) \<Longrightarrow> set x \<subseteq> set s"
proof (induction s arbitrary: x)
  case Nil
  then show ?case by simp
next
  case (Cons c s)
  show ?case
  proof (cases "c = sep")
    case True
    then show ?thesis using Cons by auto
  next
    case False
    obtain w ws where sp: "split_on sep s = w # ws"
      using split_on_not_Nil [of sep s] by (cases "split_on sep s") auto
    then have "x = c # w \<or> x \<in> set ws" using Cons.prems False by simp
    moreover have "set w \<subseteq> set s" using Cons.IH [of w] sp by simp
    moreover have "x \<in> set ws \<Longrightarrow> set x \<subseteq> set s" using Cons.IH [of x] sp by simp
    ultimately show ?thesis by auto
  qed
qed

lemma set_strip: "set (strip s) \<subseteq> set s"
  unfolding strip_def by (rule set_strip_chars)

lemma line_cells_subset: "cell \<in> set (line_cells line) \<Longrightarrow> set cell \<subseteq> set line"
proof -
  assume "cell \<in> set (line_cells line)"
  then obtain x where x: "x \<in> set (split_on CHR ''|'' (strip_chars ''|'' line))"
    and c: "cell = strip x"
    by (auto simp: line_cells_def clean_cell_def)
  have "set x \<subseteq> set (strip_chars ''|'' line)" using x by (rule split_on_subset)
  then have "set x \<subseteq> set line" using set_strip_chars [of "''|''" line] by blast
  then show ?thesis using set_strip [of x] c by blast
qed

lemma table_lines_subset: "line \<in> set (table_lines content) \<Longrightarrow> set line \<subseteq> set content"
proof -
  assume "line \<in> set (table_lines content)"
  then obtain x where x: "x \<in> set (split_on LF (strip content))" and l: "line = strip x"
    by (auto simp: table_lines_def)
  have "set x \<subseteq> set (strip content)" using x by (rule split_on_subset)
  then show ?thesis using set_strip [of x] set_strip [of content] l by blast
qed

lemma fit_row_cells: "cell \<in> set (fit_row n cells) \<Longrightarrow> cell \<in> set cells \<or> cell = []"
  by (auto simp: fit_row_def dest: in_set_takeD split: if_splits)

lemma normalized_grid_cells:
  "row \<in> set (normalized_grid rows) \<Longrightarrow> cell \<in> set row \<Longrightarrow>
     cell = [] \<or> (\<exists>r \<in> set rows. cell \<in> set r)"
  by (cases rows) (auto simp: normalized_grid_def dest: fit_row_cells)

lemma parsed_cells_subset:
  assumes "row \<in> set (parse_markdown_table content)" and "cell \<in> set row"
  shows "set cell \<subseteq> set content"
proof -
  from assms have "cell = [] \<or> (\<exists>r \<in> set (map line_cells (accepted_lines content)). cell \<in> set r)"
    unfolding parse_markdown_table_grid by (rule normalized_grid_cells)
  then show ?thesis
  proof
    assume "cell = []"
    then show ?thesis by simp
  next
    assume "\<exists>r \<in> set (map line_cells (accepted_lines content)). cell \<in> set r"
    then obtain line where l: "line \<in> set (table_lines content)" and c: "cell \<in> set (line_cells line)"
      by (auto simp: accepted_lines_def)
    show ?thesis using line_cells_subset [OF c] table_lines_subset [OF l] by blast
  qed
qed

lemma fill_header_ok:
  "k + length xs \<le> length cells \<Longrightarrow> \<forall>x \<in> set xs. xml_compatible x \<Longrightarrow>
     snd (fill_header n (enumerate k xs) cells) = None
     \<and> length (fst (fill_header n (enumerate k xs) cells)) = length cells"
proof (induction xs arbitrary: k cells)
  case Nil
  then show ?case by simp
next
  case (Cons x xs)
  then show ?case by (cases "k < n") (simp_all add: set_cell_text_accepts)
qed

lemma fill_row_ok:
  "k + length xs \<le> length cells \<Longrightarrow> \<forall>x \<in> set xs. xml_compatible x \<Longrightarrow>
     snd (fill_row (enumerate k xs) cells) = None"
proof (induction xs arbitrary: k cells)
  case Nil
  then show ?case by simp
next
  case (Cons x xs)
  then show ?case by (simp add: set_cell_text_accepts)
qed

lemma add_data_rows_ok:
  "table_cols t = n \<Longrightarrow> \<forall>row \<in> set rows. \<forall>x \<in> set row. xml_compatible x \<Longrightarrow>
     snd (add_data_rows n rows t) = None"
proof (induction rows arbitrary: t)
  case Nil
  then show ?case by simp
next
  case (Cons r rows)
  from Cons.prems(2) have rest: "\<forall>row \<in> set rows. \<forall>x \<in> set row. xml_compatible x"
    and this_row: "\<forall>x \<in> set r. xml_compatible x" by simp_all
  show ?case
  proof (cases "length r = n")
    case True
    then have "snd (fill_row (enumerate 0 r) (new_row_cells t)) = None"
      using Cons.prems(1) this_row fill_row_ok [of 0 r "new_row_cells t"]
      by (simp add: new_row_cells_def)
    then obtain row_cells where f: "fill_row (enumerate 0 r) (new_row_cells t) = (row_cells, None)"
      by (cases "fill_row (enumerate 0 r) (new_row_cells t)") auto
    have "table_cols (t\<lparr>table_rows := table_rows t @ [row_cells]\<rparr>) = n"
      using Cons.prems(1) by simp
    from Cons.IH [OF this rest] show ?thesis
      using True f by simp
  next
    case False
    then show ?thesis using Cons.IH [OF Cons.prems(1) rest] by simp
  qed
qed

lemma build_table_ok:
  assumes "\<forall>x \<in> set header. xml_compatible x"
    and "\<forall>row \<in> set data_rows. \<forall>x \<in> set row. xml_compatible x"
  shows "snd (build_table header data_rows (length header)) = None"
proof -
  let ?t = "(add_table (length header))\<lparr>table_style := ''Table Grid''\<rparr>"
  have "snd (fill_header (length header) (enumerate 0 header) (new_row_cells ?t)) = None"
    using fill_header_ok [of 0 header "new_row_cells ?t" "length header"] assms(1)
    by (simp add: new_row_cells_def add_table_def)
  then obtain hdr_cells where
    h: "fill_header (length header) (enumerate 0 header) (new_row_cells ?t) = (hdr_cells, None)"
    by (cases "fill_header (length header) (enumerate 0 header) (new_row_cells ?t)") auto
  have "table_cols (?t\<lparr>table_rows := [hdr_cells]\<rparr>) = length header"
    by (simp add: add_table_def)
  from add_data_rows_ok [OF this assms(2)] show ?thesis
    using h by (simp add: build_table_def Let_def)
qed

lemma build_table_clean_content:
  assumes "parse_markdown_table content = header # data_rows" and "xml_compatible content"
  shows "snd (build_table header data_rows (length header)) = None"
proof (rule build_table_ok)
  show "\<forall>x \<in> set header. xml_compatible x"
  proof
    fix x
    assume "x \<in> set header"
    then have "set x \<subseteq> set content"
      using parsed_cells_subset [of header content x] assms(1) by simp
    then show "xml_compatible x" using assms(2) by (rule xml_compatible_subset)
  qed
  show "\<forall>row \<in> set data_rows. \<forall>x \<in> set row. xml_compatible x"
  proof (intro ballI)
    fix row x
    assume "row \<in> set data_rows" and "x \<in> set row"
    then have "set x \<subseteq> set content"
      using parsed_cells_subset [of row content x] assms(1) by simp
    then show "xml_compatible x" using assms(2) by (rule xml_compatible_subset)
  qed
qed

lemma fallback_refused: "\<not> xml_compatible content \<Longrightarrow> \<not> xml_compatible (fallback_text content)"
  unfolding fallback_text_def xml_compatible_append by blast

lemma parse_not_blank:
  assumes "parse_markdown_table content = header # data_rows"
  shows "content \<noteq> []" and "strip content \<noteq> []"
proof -
  show "strip content \<noteq> []"
  proof
    assume "strip content = []"
    then have "table_lines content = []" by (rule strip_blank_no_lines)
    then have "parse_markdown_table content = []" by (simp add: parse_markdown_table_def)
    with assms show False by simp
  qed
  then show "content \<noteq> []" using strip_Nil by auto
qed

lemma render_table_fallback_raises:
  assumes "parse_markdown_table content = header # data_rows"
    and "snd (build_table header data_rows (length header)) \<noteq> None"
  shows "render_table doc content = Inl ValueError"
proof -
  have bad: "\<not> xml_compatible content"
    using build_table_clean_content [OF assms(1)] assms(2) by blast
  obtain t e where b: "build_table header data_rows (length header) = (t, Some e)"
    using assms(2) by (cases "build_table header data_rows (length header)") auto
  have hne: "header \<noteq> []"
    using line_cells_not_Nil assms(1)
    by (auto simp: parse_markdown_table_grid normalized_grid_def split: list.splits)
  have "render_table doc content =
          add_paragraph (doc @ [Table t]) (PStr (fallback_text content)) ''Normal''"
    using assms(1) parse_not_blank [OF assms(1)] b hne by (simp add: render_table_def)
  then show ?thesis
    using fallback_refused [OF bad] by (simp add: add_paragraph_str)
qed

lemma render_table_clean:
  assumes "xml_compatible content"
  shows "\<exists>doc'. render_table doc content = Inr doc'"
proof (cases "parse_markdown_table content")
  case Nil
  then show ?thesis by (simp add: render_table_no_rows)
next
  case (Cons header data_rows)
  have "snd (build_table header data_rows (length header)) = None"
    using Cons assms by (rule build_table_clean_content)
  then obtain t where "build_table header data_rows (length header) = (t, None)"
    by (cases "build_table header data_rows (length header)") auto
  then show ?thesis using Cons by (simp add: render_table_def)
qed


section \<open>The assembler: exceptions and the end-to-end input\<close>

lemma processed_paragraph_chars:
  "ch \<in> set (processed_paragraph c) \<Longrightarrow> ch = CHR '' '' \<or> ch \<in> set c"
proof -
  assume "ch \<in> set (processed_paragraph c)"
  then have "ch \<in> set (join '' '' (splitlines c))"
    using set_strip [of "join '' '' (splitlines c)"] by (auto simp: processed_paragraph_def)
  then have "ch = CHR '' '' \<or> (\<exists>p \<in> set (splitlines c). ch \<in> set p)"
    using set_join [of "'' ''" "splitlines c"] by auto
  then show ?thesis
    using splitlines_from_chars [of _ "[]" c ch] by (auto simp: splitlines_def)
qed

lemma processed_paragraph_compatible:
  "xml_compatible c \<Longrightarrow> xml_compatible (processed_paragraph c)"
  using processed_paragraph_chars [of _ c] space_allowed
  by (auto simp: xml_compatible_def list_all_iff)

lemma render_element_clean:
  assumes "py_get element ''type'' PNone = Inr el_type"
    and "py_get element ''content'' (PStr []) = Inr (PStr c)"
    and "xml_compatible c"
    and "xml_compatible (format_value L el_type)"
  shows "\<exists>doc'. render_element L doc element = Inr doc'"
proof (cases "el_type \<in> set known_types")
  case False
  have x: "xml_compatible (''[Unknown type: '' @ format_value L el_type @ ''] '' @ c)"
    unfolding xml_compatible_append using assms(3,4) marker_compatible by blast
  show ?thesis
    using render_unknown [OF assms(1) False assms(2), of L doc] x
    by (simp add: unknown_text_def add_paragraph_str)
next
  case True
  then have d: "el_type = PStr ''heading_1'' \<or> el_type = PStr ''heading_2''
      \<or> el_type = PStr ''heading_3'' \<or> el_type = PStr ''paragraph''
      \<or> el_type = PStr ''table_markdown''"
    by (simp add: known_types_def)
  have h1: "el_type = PStr ''heading_1'' \<Longrightarrow> ?thesis"
    using assms(1-3) by (simp add: render_element_def add_paragraph_str)
  have h2: "el_type = PStr ''heading_2'' \<Longrightarrow> ?thesis"
    using assms(1-3) by (simp add: render_element_def add_paragraph_str)
  have h3: "el_type = PStr ''heading_3'' \<Longrightarrow> ?thesis"
    using assms(1-3) by (simp add: render_element_def add_paragraph_str)
  have p: ?thesis if "el_type = PStr ''paragraph''"
  proof -
    have "xml_compatible (processed_paragraph c)"
      using assms(3) by (rule processed_paragraph_compatible)
    moreover have "py_get element ''type'' PNone = Inr (PStr ''paragraph'')"
      using assms(1) that by simp
    ultimately show ?thesis
      using render_paragraph [of element c L doc] assms(2) by simp
  qed
  have t: ?thesis if "el_type = PStr ''table_markdown''"
  proof -
    have ty: "py_get element ''type'' PNone = Inr (PStr ''table_markdown'')"
      using assms(1) that by simp
    have r: "render_element L doc element = (if c \<noteq> [] then render_table doc c else Inr doc)"
      using ty assms(2) by (rule render_table_element)
    obtain d' where d': "render_table doc c = Inr d'"
      using render_table_clean [OF assms(3), of doc] by blast
    show ?thesis
    proof (cases "c = []")
      case True
      then show ?thesis by (simp only: r) simp
    next
      case False
      then show ?thesis by (simp only: r d') simp
    qed
  qed
  from d show ?thesis
  proof (elim disjE)
    show ?thesis if "el_type = PStr ''heading_1''" using that by (rule h1)
    show ?thesis if "el_type = PStr ''heading_2''" using that by (rule h2)
    show ?thesis if "el_type = PStr ''heading_3''" using that by (rule h3)
    show ?thesis if "el_type = PStr ''paragraph''" using that by (rule p)
    show ?thesis if "el_type = PStr ''table_markdown''" using that by (rule t)
  qed
qed

lemma create_docx_dict:
  assumes "json_loads L s = Some (PDict kvs)"
    and "map_of kvs ''document_elements'' = Some (PList els)"
  shows "create_docx_from_structured_data L s path =
           (case render_elements L [] els of Inl e \<Rightarrow> Inl e | Inr doc \<Rightarrow> Inr (Save doc path))"
  using assms by (simp add: create_docx_from_structured_data_def)

lemma content_conforming:
  assumes "py_get element ''content'' (PStr []) = Inr (PStr c)" and "c \<noteq> []"
  shows "conforming element"
proof -
  from assms(1) obtain kvs where e: "element = PDict kvs"
    by (cases element) simp_all
  with assms have "map_of kvs ''content'' = Some (PStr c)"
    by (cases "map_of kvs ''content''") simp_all
  then show ?thesis by (simp add: e)
qed

text \<open>
  Claim C5. An element can keep the contract and still end the loop with an exception: a
  heading whose content has a character that the document library refuses raises
  \<open>ValueError\<close> at line 48, 50 or 52, which nothing catches, so the program never
  reaches \<open>doc.save\<close>. And whenever the \<open>try\<close> block of the table branch raises,
  the fallback call of line 89 raises too: the exception that is caught locally is
  followed by one that is not.
\<close>

theorem conforming_element_raises:
  assumes "py_get element ''type'' PNone = Inr el_type"
    and "el_type \<in> {PStr ''heading_1'', PStr ''heading_2'', PStr ''heading_3''}"
    and "py_get element ''content'' (PStr []) = Inr (PStr c)"
    and "\<not> xml_compatible c"
  shows "conforming element
       \<and> render_element L doc element = Inl ValueError
       \<and> render_elements L doc (element # rest) = Inl ValueError
       \<and> (\<forall>kvs s path. json_loads L s = Some (PDict kvs)
              \<and> map_of kvs ''document_elements'' = Some (PList (element # rest)) \<longrightarrow>
            create_docx_from_structured_data L s path = Inl ValueError)
       \<and> (\<forall>d content header data_rows.
            parse_markdown_table content = header # data_rows
              \<and> snd (build_table header data_rows (length header)) \<noteq> None \<longrightarrow>
            render_table d content = Inl ValueError)"
proof -
  have ne: "c \<noteq> []" using assms(4) xml_compatible_Nil by auto
  have 1: "conforming element" using assms(3) ne by (rule content_conforming)
  have 2: "render_element L d element = Inl ValueError" for d
    using assms by (auto simp: render_element_def add_paragraph_str)
  have 3: "render_elements L d (element # rest) = Inl ValueError" for d
    by (simp add: 2)
  have 4: "create_docx_from_structured_data L s path = Inl ValueError"
    if "json_loads L s = Some (PDict kvs)"
      and "map_of kvs ''document_elements'' = Some (PList (element # rest))" for kvs s path
    using create_docx_dict [OF that, of path] 3 [of "[]"] by simp
  have 5: "render_table d content = Inl ValueError"
    if "parse_markdown_table content = header # data_rows"
      and "snd (build_table header data_rows (length header)) \<noteq> None" for d content header data_rows
    using that by (rule render_table_fallback_raises)
  from 1 2 3 4 5 show ?thesis by blast
qed

theorem conforming_element_raises_witness:
  "conforming (PDict [(''type'', PStr ''heading_1''), (''content'', PStr [CHR ''a'', CHR 0x0B, CHR ''b''])])
   \<and> render_elements (example_lib [] PNone) []
        [PDict [(''type'', PStr ''heading_1''), (''content'', PStr [CHR ''a'', CHR 0x0B, CHR ''b''])]]
       = Inl ValueError
   \<and> parse_markdown_table [CHR ''|'', CHR ''x'', CHR 0x01, CHR ''|''] = [[[CHR ''x'', CHR 0x01]]]
   \<and> render_table [] [CHR ''|'', CHR ''x'', CHR 0x01, CHR ''|''] = Inl ValueError"
proof -
  let ?c = "[CHR ''a'', CHR 0x0B, CHR ''b'']"
  let ?e = "PDict [(''type'', PStr ''heading_1''), (''content'', PStr ?c)]"
  let ?m = "[CHR ''|'', CHR ''x'', CHR 0x01, CHR ''|'']"
  have t: "py_get ?e ''type'' PNone = Inr (PStr ''heading_1'')"
    and k: "PStr ''heading_1'' \<in> {PStr ''heading_1'', PStr ''heading_2'', PStr ''heading_3''}"
    and c: "py_get ?e ''content'' (PStr []) = Inr (PStr ?c)"
    by simp_all
  have x: "\<not> xml_compatible ?c"
    by code_simp
  have p: "parse_markdown_table ?m = [[CHR ''x'', CHR 0x01]] # []"
    by code_simp
  have b: "snd (build_table [[CHR ''x'', CHR 0x01]] [] (length [[CHR ''x'', CHR 0x01]])) \<noteq> None"
    by code_simp
  note r = conforming_element_raises [OF t k c x, of "example_lib [] PNone" "[]" "[]"]
  from r have 1: "conforming ?e" by blast
  from r have 2: "render_elements (example_lib [] PNone) [] [?e] = Inl ValueError" by blast
  from r p b have 3: "render_table [] ?m = Inl ValueError" by blast
  from 1 2 p 3 show ?thesis by blast
qed

lemma example_render:
  "render_elements L []
     [PDict [(''type'', PStr ''heading_1''), (''content'', PStr ''Title'')],
      PDict [(''type'', PStr ''table_markdown''),
             (''content'', PStr (''| A | B |'' @ [LF] @ ''|---|---|'' @ [LF] @ ''| 1 | 2 |''))]]
   = Inr example_document"
  by code_simp

text \<open>
  Claim C2, at the input of the spec's end-to-end scenario: the document has the
  \<open>Heading 1\<close> block \<open>Title\<close> and one table of two columns, but the table has three
  rows: the bold header, the row of the separator line
  \<open>|---|---|\<close>, and the data row.
\<close>

theorem end_to_end_table_has_three_rows:
  assumes "json_loads L example_json_text = Some example_json_data"
  shows "create_docx_from_structured_data L example_json_text path = Inr (Save example_document path)"
  using create_docx_dict [of L example_json_text _ _ path] assms example_render [of L]
  by (simp add: example_json_data_def)

theorem end_to_end_table_has_three_rows_witness:
  "create_docx_from_structured_data (example_lib example_json_text example_json_data)
     example_json_text ''out.docx'' = Inr (Save example_document ''out.docx'')
   \<and> (\<exists>t. example_document ! 1 = Table t \<and> length (table_rows t) = 3)"
proof -
  have "json_loads (example_lib example_json_text example_json_data) example_json_text
          = Some example_json_data"
    by (simp add: example_lib_def)
  from end_to_end_table_has_three_rows [OF this, of "''out.docx''"]
  show ?thesis by (simp add: example_document_def)
qed

lemma decode_error_reported:
  "json_loads L s = None \<Longrightarrow>
     create_docx_from_structured_data L s path = Inr Decode_Error_Reported"
  by (simp add: create_docx_from_structured_data_def)

lemma validation_on_objects:
  assumes "json_loads L s = Some (PDict kvs)"
  shows "create_docx_from_structured_data L s path = Inr Not_Found_Reported
           \<longleftrightarrow> (\<forall>els. map_of kvs ''document_elements'' \<noteq> Some (PList els))"
proof (cases "map_of kvs ''document_elements''")
  case None
  then show ?thesis using assms by (simp add: create_docx_from_structured_data_def)
next
  case (Some v)
  show ?thesis
  proof (cases v)
    case (PList els)
    then show ?thesis
      using create_docx_dict [OF assms, of els path] Some
      by (simp split: sum.splits)
  qed (use assms Some in \<open>simp_all add: create_docx_from_structured_data_def\<close>)
qed

text \<open>
  Claim C4. A text that is not JSON is reported as a decoding error, and a JSON object is
  reported as lacking the key exactly when \<open>document_elements\<close> is absent or not a list,
  as for \<open>{"foo": []}\<close>. But when the text is valid JSON and its value is \<open>None\<close>, a
  \<open>bool\<close>, an \<open>int\<close> or a \<open>float\<close>, or a list or a string that contains
  \<open>"document_elements"\<close>, the validation of line 34 raises \<open>TypeError\<close>, which the
  \<open>except\<close> clause of line 37 does not catch.
\<close>

theorem non_object_json_raises:
  assumes "json_loads L s = Some data"
  shows "(data = PNone \<or> data = PBool b \<or> data = PInt n \<or> data = PFloat f \<longrightarrow>
            create_docx_from_structured_data L s path = Inl TypeError)
       \<and> (data = PList xs \<and> PStr ''document_elements'' \<in> set xs \<longrightarrow>
            create_docx_from_structured_data L s path = Inl TypeError)
       \<and> (data = PStr t \<and> is_substring ''document_elements'' t \<longrightarrow>
            create_docx_from_structured_data L s path = Inl TypeError)
       \<and> (data = PDict kvs \<longrightarrow>
            (create_docx_from_structured_data L s path = Inr Not_Found_Reported
               \<longleftrightarrow> (\<forall>els. map_of kvs ''document_elements'' \<noteq> Some (PList els))))"
proof -
  have "data = PDict kvs \<longrightarrow>
            (create_docx_from_structured_data L s path = Inr Not_Found_Reported
               \<longleftrightarrow> (\<forall>els. map_of kvs ''document_elements'' \<noteq> Some (PList els)))"
    using assms validation_on_objects [of L s kvs path] by blast
  moreover have "data = PNone \<or> data = PBool b \<or> data = PInt n \<or> data = PFloat f \<longrightarrow>
            create_docx_from_structured_data L s path = Inl TypeError"
    using assms by (auto simp: create_docx_from_structured_data_def)
  moreover have "data = PList xs \<and> PStr ''document_elements'' \<in> set xs \<longrightarrow>
            create_docx_from_structured_data L s path = Inl TypeError"
    using assms by (auto simp: create_docx_from_structured_data_def)
  moreover have "data = PStr t \<and> is_substring ''document_elements'' t \<longrightarrow>
            create_docx_from_structured_data L s path = Inl TypeError"
    using assms by (auto simp: create_docx_from_structured_data_def)
  ultimately show ?thesis by blast
qed

theorem non_object_json_raises_witness:
  \<open>create_docx_from_structured_data (example_lib ''5'' (PInt 5)) ''5'' ''out.docx'' = Inl TypeError
   \<and> create_docx_from_structured_data (example_lib ''{"foo": []}'' (PDict [(''foo'', PList [])]))
        ''{"foo": []}'' ''out.docx'' = Inr Not_Found_Reported\<close>
proof -
  have five: "json_loads (example_lib ''5'' (PInt 5)) ''5'' = Some (PInt 5)"
    by (simp add: example_lib_def)
  have foo: \<open>json_loads (example_lib ''{"foo": []}'' (PDict [(''foo'', PList [])])) ''{"foo": []}''
               = Some (PDict [(''foo'', PList [])])\<close>
    by (simp add: example_lib_def)
  from non_object_json_raises [OF five, where n = 5 and path = "''out.docx''"]
  have 1: "create_docx_from_structured_data (example_lib ''5'' (PInt 5)) ''5'' ''out.docx'' = Inl TypeError"
    by simp
  from non_object_json_raises [OF foo, where kvs = "[(''foo'', PList [])]" and path = "''out.docx''"]
  have 2: \<open>create_docx_from_structured_data (example_lib ''{"foo": []}'' (PDict [(''foo'', PList [])]))
        ''{"foo": []}'' ''out.docx'' = Inr Not_Found_Reported\<close>
    by simp
  from 1 2 show ?thesis by (rule conjI)
qed

end
